theory Spec2Isabelle
  imports Complex_Main "HOL-Library.Sublist"
begin

section \<open>Monochrome dithering editor: the processing core of \<open>src/App.tsx\<close>\<close>

text \<open>
  The embedding follows \<open>applyTonalAdjustments\<close>, \<open>toLuma\<close> and \<open>processImage\<close>.

  Numbers. A finite JavaScript number is a rational, and the arithmetic of the source is
  modelled exactly over \<open>real\<close>: the rounding of doubles and of the \<open>Float32Array\<close> store is
  not modelled, and neither are \<open>NaN\<close> and the infinities. The tonal parameters are the values
  of the sliders, which are finite. \<open>Math.pow\<close> on a base in \<open>[0,1]\<close> and a positive exponent is
  \<open>powr\<close>.

  Typed arrays are lists: a \<open>Uint8ClampedArray\<close> is a \<open>nat list\<close> of bytes, the
  \<open>Float32Array\<close> working buffer a \<open>real list\<close>. A write past the end of a typed array is
  ignored, which is what \<open>xs[i := v]\<close> does.
\<close>

subsection \<open>Tables\<close>

record palette =
  fg :: string
  bg :: string

definition PALETTES :: "(string \<times> palette) list" where
  "PALETTES =
    [(''Black & White'', \<lparr>fg = ''#000000'', bg = ''#ffffff''\<rparr>),
     (''Sepia'', \<lparr>fg = ''#3e2f1c'', bg = ''#f3e8d0''\<rparr>),
     (''Indigo & Ivory'', \<lparr>fg = ''#1e1b4b'', bg = ''#fffff0''\<rparr>),
     (''Teal & Sand'', \<lparr>fg = ''#0f766e'', bg = ''#fbf1c7''\<rparr>),
     (''Crimson & Cream'', \<lparr>fg = ''#8b0000'', bg = ''#fff4f4''\<rparr>),
     (''Forest & Sky'', \<lparr>fg = ''#064e3b'', bg = ''#f0f9ff''\<rparr>)]"

definition BAYER_2 :: "nat list list" where
  "BAYER_2 = [[0, 2], [3, 1]]"

definition BAYER_4 :: "nat list list" where
  "BAYER_4 = [[0, 8, 2, 10], [12, 4, 14, 6], [3, 11, 1, 9], [15, 7, 13, 5]]"

definition BAYER_8 :: "nat list list" where
  "BAYER_8 =
    [[0, 48, 12, 60, 3, 51, 15, 63],
     [32, 16, 44, 28, 35, 19, 47, 31],
     [8, 56, 4, 52, 11, 59, 7, 55],
     [40, 24, 36, 20, 43, 27, 39, 23],
     [2, 50, 14, 62, 1, 49, 13, 61],
     [34, 18, 46, 30, 33, 17, 45, 29],
     [10, 58, 6, 54, 9, 57, 5, 53],
     [42, 26, 38, 22, 41, 25, 37, 21]]"

text \<open>
  The algorithm identifiers are strings, here the bytes of the source file. The second
  entry of \<open>ALGORITHMS\<close> is written in the file with the three characters U+00E2, U+20AC,
  U+201C between \<open>Floyd\<close> and \<open>Steinberg\<close> (eight bytes in UTF-8).
\<close>

definition FLOYD_STEINBERG :: string where
  "FLOYD_STEINBERG =
     ''Floyd'' @ [CHR 0xC3, CHR 0xA2, CHR 0xE2, CHR 0x82, CHR 0xAC, CHR 0xE2, CHR 0x80, CHR 0x9C]
       @ ''Steinberg''"

definition ALGORITHMS :: "string list" where
  "ALGORITHMS =
    [''Threshold'', FLOYD_STEINBERG, ''Atkinson'', ''Ordered Bayer 2x2'',
     ''Ordered Bayer 4x4'', ''Ordered Bayer 8x8'', ''Random'']"

subsection \<open>Component state\<close>

record params =
  algorithm :: string
  paletteKey :: string
  ditherSize :: nat
  brightness :: real
  contrast :: real
  gamma :: real
  invert :: bool
  threshold :: real

subsection \<open>Number and typed-array primitives\<close>

definition Math_round :: "real \<Rightarrow> int" where
  \<comment> \<open>\<open>Math.round\<close>: the nearest integer, a tie going up.\<close>
  "Math_round x = \<lfloor>x + 1 / 2\<rfloor>"

definition to_uint8_clamped :: "int \<Rightarrow> nat" where
  \<comment> \<open>Storing an integer into a \<open>Uint8ClampedArray\<close>.\<close>
  "to_uint8_clamped n = nat (max 0 (min 255 n))"

subsection \<open>Tonal adjustments and luma\<close>

definition applyTonalAdjustments :: "params \<Rightarrow> real \<Rightarrow> int" where
  "applyTonalAdjustments ps v =
    (let x = v / 255;
         x = x + brightness ps / 100;
         x = (if contrast ps \<noteq> 0
              then (let c = (100 + contrast ps) / 100 in (x - 0.5) * c + 0.5)
              else x);
         x = (if gamma ps > 0 \<and> gamma ps \<noteq> 1
              then (max 0 (min 1 x)) powr (1 / gamma ps)
              else max 0 (min 1 x));
         x = (if invert ps then 1 - x else x)
     in Math_round (x * 255))"

definition toLuma :: "real \<Rightarrow> real \<Rightarrow> real \<Rightarrow> int" where
  "toLuma r g b = Math_round (0.2126 * r + 0.7152 * g + 0.0722 * b)"









subsection \<open>Scanning a raster\<close>

text \<open>
  \<open>for (let y = 0; y < h; y++) for (let x = 0; x < w; x++) body\<close>, the loop that the ordered
  and diffusion variants and the painter share; \<open>body\<close> updates the state of the loop.
\<close>

definition scan :: "nat \<Rightarrow> nat \<Rightarrow> (nat \<Rightarrow> nat \<Rightarrow> 's \<Rightarrow> 's) \<Rightarrow> 's \<Rightarrow> 's" where
  "scan w h body s = foldl (\<lambda>s y. foldl (\<lambda>s x. body x y s) s [0..<w]) s [0..<h]"

subsection \<open>The dither variants\<close>

text \<open>
  Each variant takes the grayscale buffer and the mask allocated by \<open>processImage\<close> and
  returns the mask it leaves. In \<open>processImage\<close> both have \<open>w * h\<close> entries, so that every
  read of the source is in range. The mask is written \<open>msk\<close>, the name \<open>mask\<close> being a
  constant of the library.
\<close>

definition threshold_variant :: "real \<Rightarrow> nat list \<Rightarrow> nat list \<Rightarrow> nat list" where
  "threshold_variant thr gray msk =
    (let T = max 0 (min 255 thr)
     in foldl (\<lambda>msk p. msk[p := (if real (gray ! p) \<ge> T then 1 else 0)]) msk
          [0..<length gray])"

text \<open>
  \<open>Math.random\<close> is the one source of non-determinism: \<open>rand p\<close> is the value of the call
  made for pixel \<open>p\<close> of this pass.
\<close>

definition random_variant :: "(nat \<Rightarrow> real) \<Rightarrow> nat list \<Rightarrow> nat list \<Rightarrow> nat list" where
  "random_variant rand gray msk =
    foldl (\<lambda>msk p. let rnd = rand p * 255
                     in msk[p := (if real (gray ! p) \<ge> rnd then 1 else 0)]) msk
      [0..<length gray]"

definition str_includes :: "string \<Rightarrow> string \<Rightarrow> bool" where
  \<comment> \<open>\<open>s.includes(t)\<close>\<close>
  "str_includes s t = sublist t s"

definition ordered_pixel ::
    "nat list list \<Rightarrow> nat \<Rightarrow> nat list \<Rightarrow> nat \<Rightarrow> nat \<Rightarrow> nat list \<Rightarrow> nat list" where
  "ordered_pixel m w gray x y msk =
    (let n = length m;
         scale = n * n;
         idx = y * w + x;
         t = ((real (m ! (y mod n) ! (x mod n)) + 0.5) * 255) / real scale
     in msk[idx := (if real (gray ! idx) > t then 1 else 0)])"

definition ordered_variant :: "string \<Rightarrow> nat \<Rightarrow> nat \<Rightarrow> nat list \<Rightarrow> nat list \<Rightarrow> nat list" where
  "ordered_variant alg w h gray msk =
    (let m = (if str_includes alg ''2x2'' then BAYER_2
              else if str_includes alg ''4x4'' then BAYER_4 else BAYER_8)
     in scan w h (ordered_pixel m w gray) msk)"

fun fs_pixel :: "nat \<Rightarrow> nat \<Rightarrow> nat \<Rightarrow> nat \<Rightarrow> real list \<times> nat list \<Rightarrow> real list \<times> nat list" where
  "fs_pixel w h x y (buf, msk) =
    (let i = y * w + x;
         old = buf ! i;
         newVal = (if old < 128 then 0 else 255::real);
         msk = msk[i := (if newVal = 255 then 1 else 0)];
         err = old - newVal;
         buf = (if x + 1 < w then buf[i + 1 := buf ! (i + 1) + (err * 7) / 16] else buf);
         buf = (if y + 1 < h
                then (let buf = (if x > 0
                                 then buf[i + w - 1 := buf ! (i + w - 1) + (err * 3) / 16]
                                 else buf);
                          buf = buf[i + w := buf ! (i + w) + (err * 5) / 16];
                          buf = (if x + 1 < w
                                 then buf[i + w + 1 := buf ! (i + w + 1) + (err * 1) / 16]
                                 else buf)
                      in buf)
                else buf)
     in (buf, msk))"

definition floyd_steinberg :: "nat \<Rightarrow> nat \<Rightarrow> nat list \<Rightarrow> nat list \<Rightarrow> nat list" where
  "floyd_steinberg w h gray msk = snd (scan w h (fs_pixel w h) (map real gray, msk))"

fun atk_pixel :: "nat \<Rightarrow> nat \<Rightarrow> nat \<Rightarrow> nat \<Rightarrow> real list \<times> nat list \<Rightarrow> real list \<times> nat list" where
  "atk_pixel w h x y (buf, msk) =
    (let i = y * w + x;
         old = buf ! i;
         newVal = (if old < 128 then 0 else 255::real);
         msk = msk[i := (if newVal = 255 then 1 else 0)];
         err = (old - newVal) / 8;
         buf = (if x + 1 < w then buf[i + 1 := buf ! (i + 1) + err] else buf);
         buf = (if x + 2 < w then buf[i + 2 := buf ! (i + 2) + err] else buf);
         buf = (if y + 1 < h
                then (let buf = (if x > 0 then buf[i + w - 1 := buf ! (i + w - 1) + err]
                                 else buf);
                          buf = buf[i + w := buf ! (i + w) + err];
                          buf = (if x + 1 < w then buf[i + w + 1 := buf ! (i + w + 1) + err]
                                 else buf)
                      in buf)
                else buf);
         buf = (if y + 2 < h then buf[i + 2 * w := buf ! (i + 2 * w) + err] else buf)
     in (buf, msk))"

definition atkinson :: "nat \<Rightarrow> nat \<Rightarrow> nat list \<Rightarrow> nat list \<Rightarrow> nat list" where
  "atkinson w h gray msk = snd (scan w h (atk_pixel w h) (map real gray, msk))"

text \<open>
  Step 2 of \<open>processImage\<close>: the mask is allocated with zeros and the \<open>switch\<close> on the
  algorithm fills it. The \<open>switch\<close> has no \<open>default\<close> case.
\<close>

definition dither :: "params \<Rightarrow> (nat \<Rightarrow> real) \<Rightarrow> nat \<Rightarrow> nat \<Rightarrow> nat list \<Rightarrow> nat list" where
  "dither ps rand w h gray =
    (let msk = replicate (w * h) 0;
         alg = algorithm ps
     in if alg = ''Threshold'' then threshold_variant (threshold ps) gray msk
        else if alg = ''Random'' then random_variant rand gray msk
        else if alg = ''Ordered Bayer 2x2'' \<or> alg = ''Ordered Bayer 4x4''
                \<or> alg = ''Ordered Bayer 8x8'' then ordered_variant alg w h gray msk
        else if alg = FLOYD_STEINBERG then floyd_steinberg w h gray msk
        else if alg = ''Atkinson'' then atkinson w h gray msk
        else msk)"

subsection \<open>Canvases\<close>

text \<open>
  The original canvas is read through \<open>getImageData\<close>, which returns \<open>4 * w * h\<close> bytes, RGBA
  and row-major. The dither canvas is painted with fill styles, so a pixel of it is the
  colour string it was last filled with. \<open>ctx2d\<close> says whether \<open>getContext("2d")\<close> gives a
  context.
\<close>

record source_canvas =
  swidth :: nat
  sheight :: nat
  sdata :: "nat list"
  sctx2d :: bool

record canvas =
  cwidth :: nat
  cheight :: nat
  cpixels :: "string list"
  cctx2d :: bool

definition set_size :: "canvas \<Rightarrow> nat \<Rightarrow> nat \<Rightarrow> canvas" where
  \<comment> \<open>Assigning \<open>width\<close> and \<open>height\<close> resizes the canvas and clears it.\<close>
  "set_size dc W H = dc\<lparr>cwidth := W, cheight := H, cpixels := replicate (W * H) []\<rparr>"

definition fillRect :: "canvas \<Rightarrow> string \<Rightarrow> nat \<Rightarrow> nat \<Rightarrow> nat \<Rightarrow> nat \<Rightarrow> canvas" where
  \<comment> \<open>\<open>fillRect(x, y, rw, rh)\<close> under the fill style \<open>style\<close>, clipped to the canvas.\<close>
  "fillRect dc style x y rw rh =
    dc\<lparr>cpixels :=
         map (\<lambda>k. let px = k mod cwidth dc; py = k div cwidth dc
                   in if x \<le> px \<and> px < x + rw \<and> y \<le> py \<and> py < y + rh then style
                      else cpixels dc ! k)
           [0..<length (cpixels dc)]\<rparr>"

definition composite :: "nat \<Rightarrow> nat \<Rightarrow> nat list \<Rightarrow> palette \<Rightarrow> nat \<Rightarrow> canvas \<Rightarrow> canvas" where
  "composite w h msk pal s dc =
    (let outW = w * s;
         outH = h * s;
         dc = set_size dc outW outH;
         dc = fillRect dc (bg pal) 0 0 outW outH
     in scan w h
          (\<lambda>x y dc. if msk ! (y * w + x) \<noteq> 0 then fillRect dc (fg pal) (x * s) (y * s) s s
                     else dc) dc)"

subsection \<open>The pass\<close>

text \<open>
  A read past the end of \<open>src.data\<close> is \<open>undefined\<close>, which makes the luma and then the
  adjusted value \<open>NaN\<close>, stored as 0 in the clamped array. \<open>getImageData\<close> never returns
  such a buffer.
\<close>

definition gray_sample :: "params \<Rightarrow> nat list \<Rightarrow> nat \<Rightarrow> nat" where
  "gray_sample ps d i =
    (if i + 2 < length d
     then (let l = toLuma (real (d ! i)) (real (d ! (i + 1))) (real (d ! (i + 2)))
           in to_uint8_clamped (applyTonalAdjustments ps (real_of_int l)))
     else 0)"

function gray_loop :: "params \<Rightarrow> nat list \<Rightarrow> nat \<Rightarrow> nat \<Rightarrow> nat list \<Rightarrow> nat list" where
  "gray_loop ps d i p gray =
    (if i < length d then gray_loop ps d (i + 4) (p + 1) (gray[p := gray_sample ps d i])
     else gray)"
  by pat_completeness auto
termination
  by (relation "measure (\<lambda>(ps, d, i, p, gray). length d - i)") auto

declare gray_loop.simps [simp del]

datatype error = TypeError

text \<open>
  \<open>processImage\<close> returns the dither canvas it leaves: unchanged after an early return,
  repainted otherwise. Destructuring the palette of an unknown key throws.
\<close>

definition processImage ::
    "params \<Rightarrow> (nat \<Rightarrow> real) \<Rightarrow> source_canvas option \<Rightarrow> canvas option \<Rightarrow> error + canvas option" where
  "processImage ps rand oc dc =
    (case oc of
       None \<Rightarrow> Inr dc
     | Some ocv \<Rightarrow>
        (case dc of
           None \<Rightarrow> Inr dc
         | Some dcv \<Rightarrow>
            (let w = swidth ocv; h = sheight ocv
             in if w = 0 \<or> h = 0 then Inr dc
                else if \<not> sctx2d ocv \<or> \<not> cctx2d dcv then Inr dc
                else
                  (let gray = gray_loop ps (sdata ocv) 0 0 (replicate (w * h) 0);
                       msk = dither ps rand w h gray
                   in (case map_of PALETTES (paletteKey ps) of
                         None \<Rightarrow> Inl TypeError
                       | Some pal \<Rightarrow>
                           Inr (Some (composite w h msk pal (ditherSize ps) dcv)))))))"

subsection \<open>The diffusion variants, pixel by pixel\<close>





section \<open>The tonal transform\<close>







section \<open>Loops\<close>

text \<open>The nested raster loop visits the pixels in row-major order of their index.\<close>

lemma scan_linear:
  "scan w h body s = foldl (\<lambda>s k. body (k mod w) (k div w) s) s [0..<w * h]"
proof (induction h)
  case 0
  show ?case by (simp add: scan_def)
next
  case (Suc h)
  have row: "foldl (\<lambda>s k. body (k mod w) (k div w) s) t [w * h..<w * h + w]
      = foldl (\<lambda>s x. body x h s) t [0..<w]" for t
  proof -
    have "[w * h..<w * h + w] = map (\<lambda>x. x + w * h) [0..<w]"
      by (simp add: map_add_upt add.commute)
    then have "foldl (\<lambda>s k. body (k mod w) (k div w) s) t [w * h..<w * h + w]
        = foldl (\<lambda>s x. body ((x + w * h) mod w) ((x + w * h) div w) s) t [0..<w]"
      by (simp add: foldl_map)
    also have "\<dots> = foldl (\<lambda>s x. body x h s) t [0..<w]"
      by (rule foldl_cong) auto
    finally show ?thesis .
  qed
  have "[0..<w * Suc h] = [0..<w * h] @ [w * h..<w * h + w]"
    using upt_add_eq_append [of 0 "w * h" w] by (simp add: add.commute)
  then show ?case
    using Suc by (simp add: scan_def row)
qed

lemma foldl_upt_invariant:
  assumes "P 0 s"
    and "\<And>k t. k < n \<Longrightarrow> P k t \<Longrightarrow> P (Suc k) (f t k)"
  shows "P n (foldl f s [0..<n])"
  using assms(2)
proof (induction n)
  case 0
  show ?case using assms(1) by simp
next
  case (Suc n)
  have "P n (foldl f s [0..<n])"
    by (rule Suc.IH) (simp add: Suc.prems)
  then show ?case
    by (simp add: Suc.prems)
qed

text \<open>A loop that stores \<open>g p\<close> at every index \<open>p\<close> below \<open>n\<close>.\<close>

lemma foldl_store_each:
  "length (foldl (\<lambda>m p. m[p := g p]) m0 [0..<n]) = length m0 \<and>
   (\<forall>j < length m0. foldl (\<lambda>m p. m[p := g p]) m0 [0..<n] ! j = (if j < n then g j else m0 ! j))"
  by (induction n) (auto simp: nth_list_update less_Suc_eq)

section \<open>The threshold variant\<close>

lemma threshold_variant_nth:
  assumes "length msk = length gray" "p < length gray"
  shows "threshold_variant thr gray msk ! p
         = (if real (gray ! p) \<ge> max 0 (min 255 thr) then 1 else 0)"
  using assms foldl_store_each [of "\<lambda>p. if real (gray ! p) \<ge> max 0 (min 255 thr) then 1 else 0"
      msk "length gray"]
  by (simp add: threshold_variant_def Let_def)

lemma threshold_variant_length:
  "length (threshold_variant thr gray msk) = length msk"
  using foldl_store_each [of "\<lambda>p. if real (gray ! p) \<ge> max 0 (min 255 thr) then 1 else 0"
      msk "length gray"]
  by (simp add: threshold_variant_def Let_def)

lemma dither_Threshold:
  "algorithm ps = ''Threshold'' \<Longrightarrow>
   dither ps rand w h gray = threshold_variant (threshold ps) gray (replicate (w * h) 0)"
  by (simp add: dither_def Let_def)

text \<open>
  C5. Under the Threshold variant the mask bit of every pixel is 1 exactly when the gray
  value is at least \<open>T\<close>, the threshold clamped to [0,255]; \<open>T = 0\<close> gives a mask of
  ones; the 2 by 2 image 10, 200, 10, 200 under threshold 128 gives the mask 0, 1, 0, 1.
\<close>

theorem threshold_mask_correct:
  assumes "algorithm ps = ''Threshold''" "length gray = w * h" "p < w * h"
  shows "let T = (if threshold ps < 0 then 0 else if 255 < threshold ps then 255 else threshold ps);
             m = dither ps rand w h gray
         in (m ! p = 1 \<longleftrightarrow> real (gray ! p) \<ge> T) \<and> (m ! p = 0 \<or> m ! p = 1)
            \<and> length m = w * h
            \<and> (T = 0 \<longrightarrow> m = replicate (w * h) 1)
            \<and> dither (ps\<lparr>threshold := 128\<rparr>) rand 2 2 [10, 200, 10, 200] = [0, 1, 0, 1]"
proof -
  let ?T = "if threshold ps < 0 then 0 else if 255 < threshold ps then 255 else threshold ps"
  let ?m = "dither ps rand w h gray"
  have T: "max 0 (min 255 (threshold ps)) = ?T" by (simp add: max_def min_def)
  have m: "?m = threshold_variant (threshold ps) gray (replicate (w * h) 0)"
    using assms(1) by (rule dither_Threshold)
  have len: "length ?m = w * h"
    by (simp add: m threshold_variant_length)
  have nth: "?m ! q = (if real (gray ! q) \<ge> ?T then 1 else 0)" if "q < w * h" for q
    using that assms(2) threshold_variant_nth [of "replicate (w * h) 0" gray q "threshold ps"]
    by (simp add: m T)
  have all1: "?m = replicate (w * h) 1" if "?T = 0"
  proof (rule nth_equalityI)
    show "length ?m = length (replicate (w * h) (1::nat))" by (simp add: len)
  next
    fix q assume "q < length ?m"
    then have q: "q < w * h" by (simp add: len)
    then show "?m ! q = replicate (w * h) 1 ! q"
      using that by (simp add: nth)
  qed
  have ex: "dither (ps\<lparr>threshold := 128\<rparr>) rand 2 2 [10, 200, 10, 200] = [0, 1, 0, 1]"
    using assms(1)
    by (simp add: dither_def Let_def threshold_variant_def upt_rec numeral_eq_Suc)
  show ?thesis
    unfolding Let_def using nth [OF assms(3)] len all1 ex by simp
qed

theorem threshold_mask_correct_witness:
  "dither \<lparr>algorithm = ''Threshold'', paletteKey = ''Sepia'', ditherSize = 1, brightness = 0,
       contrast = 0, gamma = 1, invert = False, threshold = 300\<rparr> (\<lambda>p. 0) 2 1 [254, 255] ! 1 = 1
   \<and> dither \<lparr>algorithm = ''Threshold'', paletteKey = ''Sepia'', ditherSize = 1, brightness = 0,
       contrast = 0, gamma = 1, invert = False, threshold = 300\<rparr> (\<lambda>p. 0) 2 1 [254, 255] ! 0 = 0"
  using threshold_mask_correct [of "\<lparr>algorithm = ''Threshold'', paletteKey = ''Sepia'',
       ditherSize = 1, brightness = 0, contrast = 0, gamma = 1, invert = False,
       threshold = 300\<rparr>" "[254, 255]" 2 1 1 "\<lambda>p. 0"]
    threshold_mask_correct [of "\<lparr>algorithm = ''Threshold'', paletteKey = ''Sepia'',
       ditherSize = 1, brightness = 0, contrast = 0, gamma = 1, invert = False,
       threshold = 300\<rparr>" "[254, 255]" 2 1 0 "\<lambda>p. 0"]
  by (auto simp: Let_def)

section \<open>The ordered variants\<close>

lemma ordered_pixel_linear:
  "ordered_pixel m w gray (k mod w) (k div w) msk
   = msk[k := (if real (gray ! k) >
        ((real (m ! ((k div w) mod length m) ! ((k mod w) mod length m)) + 0.5) * 255)
          / real (length m * length m) then 1 else 0)]"
  by (simp add: ordered_pixel_def Let_def)

lemma ordered_scan_nth:
  assumes "length msk = w * h" "k < w * h"
  shows "scan w h (ordered_pixel m w gray) msk ! k
   = (if real (gray ! k) >
        ((real (m ! ((k div w) mod length m) ! ((k mod w) mod length m)) + 0.5) * 255)
          / real (length m * length m) then 1 else 0)"
  using assms
    foldl_store_each [of "\<lambda>k. if real (gray ! k) >
        ((real (m ! ((k div w) mod length m) ! ((k mod w) mod length m)) + 0.5) * 255)
          / real (length m * length m) then 1 else 0" msk "w * h"]
  by (simp add: scan_linear ordered_pixel_linear)

lemma ordered_matrix_choice:
  "ordered_variant ''Ordered Bayer 2x2'' w h gray msk = scan w h (ordered_pixel BAYER_2 w gray) msk"
  "ordered_variant ''Ordered Bayer 4x4'' w h gray msk = scan w h (ordered_pixel BAYER_4 w gray) msk"
  "ordered_variant ''Ordered Bayer 8x8'' w h gray msk = scan w h (ordered_pixel BAYER_8 w gray) msk"
proof -
  have a: "str_includes ''Ordered Bayer 2x2'' ''2x2''"
    unfolding str_includes_def by code_simp
  have b: "\<not> str_includes ''Ordered Bayer 4x4'' ''2x2''" "str_includes ''Ordered Bayer 4x4'' ''4x4''"
    unfolding str_includes_def by code_simp+
  have c: "\<not> str_includes ''Ordered Bayer 8x8'' ''2x2''" "\<not> str_includes ''Ordered Bayer 8x8'' ''4x4''"
    unfolding str_includes_def by code_simp+
  show "ordered_variant ''Ordered Bayer 2x2'' w h gray msk = scan w h (ordered_pixel BAYER_2 w gray) msk"
    using a by (simp add: ordered_variant_def)
  show "ordered_variant ''Ordered Bayer 4x4'' w h gray msk = scan w h (ordered_pixel BAYER_4 w gray) msk"
    using b by (simp add: ordered_variant_def)
  show "ordered_variant ''Ordered Bayer 8x8'' w h gray msk = scan w h (ordered_pixel BAYER_8 w gray) msk"
    using c by (simp add: ordered_variant_def)
qed

lemma dither_Ordered:
  assumes "algorithm ps = ''Ordered Bayer 2x2'' \<or> algorithm ps = ''Ordered Bayer 4x4''
            \<or> algorithm ps = ''Ordered Bayer 8x8''"
  shows "dither ps rand w h gray = ordered_variant (algorithm ps) w h gray (replicate (w * h) 0)"
  using assms by (auto simp: dither_def Let_def)

lemma pixel_index:
  fixes x y w :: nat
  assumes "x < w"
  shows "(y * w + x) mod w = x" "(y * w + x) div w = y"
  using assms by simp_all

text \<open>
  C3. Under an ordered variant with matrix \<open>M\<close> of size \<open>N\<close> (2, 4 or 8) the mask bit of
  pixel (x, y) is 1 exactly when the gray value is strictly greater than
  \<open>(M[y mod N][x mod N] + 0.5) * 255 / N\<^sup>2\<close>; the threshold of the 2 by 2 matrix at (0, 0) is
  31.875, and the 1 by 1 image of value 128 gets the mask 1.
\<close>

theorem ordered_mask_correct:
  assumes "(algorithm ps = ''Ordered Bayer 2x2'' \<and> M = BAYER_2 \<and> N = 2)
         \<or> (algorithm ps = ''Ordered Bayer 4x4'' \<and> M = BAYER_4 \<and> N = 4)
         \<or> (algorithm ps = ''Ordered Bayer 8x8'' \<and> M = BAYER_8 \<and> N = 8)"
    and "length gray = w * h" "x < w" "y < h"
  shows "let t = (real (M ! (y mod N) ! (x mod N)) + 1 / 2) * 255 / real (N ^ 2);
             m = dither ps rand w h gray
         in (m ! (y * w + x) = 1 \<longleftrightarrow> real (gray ! (y * w + x)) > t)
            \<and> (m ! (y * w + x) = 0 \<or> m ! (y * w + x) = 1)
            \<and> (real (BAYER_2 ! (0 mod 2) ! (0 mod 2)) + 1 / 2) * 255 / real (2 ^ 2) = 31.875
            \<and> dither (ps\<lparr>algorithm := ''Ordered Bayer 2x2''\<rparr>) rand 1 1 [128] = [1]"
proof -
  have k: "y * w + x < w * h"
  proof -
    have "y * w + x < y * w + w" using assms(3) by simp
    also have "\<dots> = (Suc y) * w" by simp
    also have "\<dots> \<le> h * w" using assms(4) by (intro mult_le_mono1) simp
    finally show ?thesis by (simp add: mult.commute)
  qed
  have len: "length M = N"
    using assms(1) by (auto simp: BAYER_2_def BAYER_4_def BAYER_8_def)
  have m: "dither ps rand w h gray = scan w h (ordered_pixel M w gray) (replicate (w * h) 0)"
    using assms(1) by (auto simp: dither_Ordered ordered_matrix_choice)
  have nth: "dither ps rand w h gray ! (y * w + x)
      = (if real (gray ! (y * w + x)) > (real (M ! (y mod N) ! (x mod N)) + 1 / 2) * 255 / real (N ^ 2)
         then 1 else 0)"
    using ordered_scan_nth [of "replicate (w * h) 0" w h "y * w + x" M gray] k assms(3)
    by (simp add: m len pixel_index [OF assms(3)] power2_eq_square)
  have t0: "(real (BAYER_2 ! (0 mod 2) ! (0 mod 2)) + 1 / 2) * 255 / real (2 ^ 2) = 31.875"
    by (simp add: BAYER_2_def)
  have "dither (ps\<lparr>algorithm := ''Ordered Bayer 2x2''\<rparr>) rand 1 1 [128]
      = scan 1 1 (ordered_pixel BAYER_2 1 [128]) (replicate (1 * 1) 0)"
    by (simp add: dither_Ordered ordered_matrix_choice)
  also have "\<dots> = [1]"
    by (simp add: scan_def ordered_pixel_def BAYER_2_def Let_def)
  finally have ex: "dither (ps\<lparr>algorithm := ''Ordered Bayer 2x2''\<rparr>) rand 1 1 [128] = [1]" .
  show ?thesis
    unfolding Let_def using nth t0 ex by simp
qed

theorem ordered_mask_correct_witness:
  "dither \<lparr>algorithm = ''Ordered Bayer 4x4'', paletteKey = ''Sepia'', ditherSize = 1,
       brightness = 0, contrast = 0, gamma = 1, invert = False, threshold = 128\<rparr>
     (\<lambda>p. 0) 2 2 [0, 0, 0, 72] ! 3 = 1"
proof -
  let ?ps = "\<lparr>algorithm = ''Ordered Bayer 4x4'', paletteKey = ''Sepia'', ditherSize = 1,
       brightness = 0, contrast = 0, gamma = 1, invert = False, threshold = 128\<rparr>"
  have alg: "(algorithm ?ps = ''Ordered Bayer 2x2'' \<and> BAYER_4 = BAYER_2 \<and> (4::nat) = 2)
         \<or> (algorithm ?ps = ''Ordered Bayer 4x4'' \<and> BAYER_4 = BAYER_4 \<and> (4::nat) = 4)
         \<or> (algorithm ?ps = ''Ordered Bayer 8x8'' \<and> BAYER_4 = BAYER_8 \<and> (4::nat) = 8)"
    by simp
  have len: "length [0, 0, 0, 72::nat] = 2 * 2" by simp
  have x: "(1::nat) < 2" by simp
  show ?thesis
    using ordered_mask_correct [OF alg len x x, of "\<lambda>p. 0"]
    by (simp add: Let_def BAYER_4_def)
qed

section \<open>Error diffusion: Floyd-Steinberg\<close>



lemma coords_eq:
  fixes x y x' y' w :: nat
  assumes "x < w" "x' < w"
  shows "(y' * w + x' = y * w + x) = (x' = x \<and> y' = y)"
proof
  assume eq: "y' * w + x' = y * w + x"
  have "(y' * w + x') mod w = x'" "(y' * w + x') div w = y'" using assms(2) by simp_all
  moreover have "(y * w + x) mod w = x" "(y * w + x) div w = y" using assms(1) by simp_all
  ultimately show "x' = x \<and> y' = y" using eq by metis
next
  assume "x' = x \<and> y' = y"
  then show "y' * w + x' = y * w + x" by simp
qed

lemma pixel_in_range:
  fixes x y w h :: nat
  assumes "x < w" "y < h"
  shows "y * w + x < w * h"
proof -
  have "y * w + x < y * w + w" using assms(1) by simp
  also have "\<dots> = (Suc y) * w" by simp
  also have "\<dots> \<le> h * w" using assms(2) by (intro mult_le_mono1) simp
  finally show ?thesis by (simp add: mult.commute)
qed

lemma fs_pixel_snd:
  "snd (fs_pixel w h x y s) = (snd s)[y * w + x := (if fst s ! (y * w + x) < 128 then 0 else 1)]"
  by (cases s) (simp add: Let_def)





declare fs_pixel.simps [simp del]










section \<open>Error diffusion: Atkinson\<close>


lemma atk_pixel_snd:
  "snd (atk_pixel w h x y s) = (snd s)[y * w + x := (if fst s ! (y * w + x) < 128 then 0 else 1)]"
  by (cases s) (simp add: Let_def)



declare atk_pixel.simps [simp del]











section \<open>The mask\<close>

lemma gray_loop_length:
  "length (gray_loop ps d i p gray) = length gray"
proof (induction ps d i p gray rule: gray_loop.induct)
  case (1 ps d i p gray)
  show ?case
  proof (cases "i < length d")
    case True
    then have "gray_loop ps d i p gray
        = gray_loop ps d (i + 4) (p + 1) (gray[p := gray_sample ps d i])"
      by (subst gray_loop.simps) simp
    with True "1" show ?thesis by simp
  next
    case False
    then have "gray_loop ps d i p gray = gray"
      by (subst gray_loop.simps) simp
    then show ?thesis by simp
  qed
qed

lemma foldl_bits:
  assumes step: "\<And>t k. \<exists>i v. g (f t k) = (g t)[i := v] \<and> (v = 0 \<or> v = (1::nat))"
  shows "length (g t0) = L \<and> set (g t0) \<subseteq> {0, 1}
     \<Longrightarrow> length (g (foldl f t0 ks)) = L \<and> set (g (foldl f t0 ks)) \<subseteq> {0, 1}"
proof (induction ks arbitrary: t0)
  case Nil
  then show ?case by simp
next
  case (Cons k ks)
  obtain i v where iv: "g (f t0 k) = (g t0)[i := v]" "v = 0 \<or> v = 1"
    using step by blast
  have "set ((g t0)[i := v]) \<subseteq> insert v (set (g t0))"
    by (rule set_update_subset_insert)
  with Cons.prems iv have "length (g (f t0 k)) = L \<and> set (g (f t0 k)) \<subseteq> {0, 1}"
    by auto
  then have "length (g (foldl f (f t0 k) ks)) = L \<and> set (g (foldl f (f t0 k) ks)) \<subseteq> {0, 1}"
    by (rule Cons.IH)
  then show ?case by simp
qed

lemma zero_mask_bits:
  "length (replicate n (0::nat)) = n \<and> set (replicate n (0::nat)) \<subseteq> {0, 1}"
  by auto

lemma threshold_variant_bits:
  assumes "length msk = L \<and> set msk \<subseteq> {0, 1}"
  shows "length (threshold_variant thr gray msk) = L
       \<and> set (threshold_variant thr gray msk) \<subseteq> {0, 1}"
  unfolding threshold_variant_def Let_def
proof (rule foldl_bits [where g = "\<lambda>m. m", OF _ assms])
  show "\<exists>i v. t[k := if max 0 (min 255 thr) \<le> real (gray ! k) then 1 else 0] = t[i := v]
      \<and> (v = 0 \<or> v = 1)" for t :: "nat list" and k
    by (intro exI conjI, rule refl) simp
qed

lemma random_variant_bits:
  assumes "length msk = L \<and> set msk \<subseteq> {0, 1}"
  shows "length (random_variant rand gray msk) = L
       \<and> set (random_variant rand gray msk) \<subseteq> {0, 1}"
  unfolding random_variant_def Let_def
proof (rule foldl_bits [where g = "\<lambda>m. m", OF _ assms])
  show "\<exists>i v. t[k := if rand k * 255 \<le> real (gray ! k) then 1 else 0] = t[i := v]
      \<and> (v = 0 \<or> v = 1)" for t :: "nat list" and k
    by (intro exI conjI, rule refl) simp
qed

lemma ordered_variant_bits:
  assumes "length msk = L \<and> set msk \<subseteq> {0, 1}"
  shows "length (ordered_variant alg w h gray msk) = L
       \<and> set (ordered_variant alg w h gray msk) \<subseteq> {0, 1}"
  unfolding ordered_variant_def Let_def scan_linear
proof (rule foldl_bits [where g = "\<lambda>m. m", OF _ assms])
  show "\<exists>i v. ordered_pixel m w gray (k mod w) (k div w) t = t[i := v] \<and> (v = 0 \<or> v = 1)"
    for m t k
    unfolding ordered_pixel_def Let_def by (intro exI conjI, rule refl) simp
qed

lemma floyd_steinberg_bits:
  assumes "length msk = L \<and> set msk \<subseteq> {0, 1}"
  shows "length (floyd_steinberg w h gray msk) = L
       \<and> set (floyd_steinberg w h gray msk) \<subseteq> {0, 1}"
  unfolding floyd_steinberg_def scan_linear
proof (rule foldl_bits [where g = snd])
  show "\<exists>i v. snd (fs_pixel w h (k mod w) (k div w) t) = (snd t)[i := v] \<and> (v = 0 \<or> v = 1)"
    for t k
    unfolding fs_pixel_snd by (intro exI conjI, rule refl) simp
  show "length (snd (map real gray, msk)) = L \<and> set (snd (map real gray, msk)) \<subseteq> {0, 1}"
    using assms by simp
qed

lemma atkinson_bits:
  assumes "length msk = L \<and> set msk \<subseteq> {0, 1}"
  shows "length (atkinson w h gray msk) = L
       \<and> set (atkinson w h gray msk) \<subseteq> {0, 1}"
  unfolding atkinson_def scan_linear
proof (rule foldl_bits [where g = snd])
  show "\<exists>i v. snd (atk_pixel w h (k mod w) (k div w) t) = (snd t)[i := v] \<and> (v = 0 \<or> v = 1)"
    for t k
    unfolding atk_pixel_snd by (intro exI conjI, rule refl) simp
  show "length (snd (map real gray, msk)) = L \<and> set (snd (map real gray, msk)) \<subseteq> {0, 1}"
    using assms by simp
qed

lemma dither_bits:
  "length (dither ps rand w h gray) = w * h \<and> set (dither ps rand w h gray) \<subseteq> {0, 1}"
proof -
  define Q where "Q = (\<lambda>m::nat list. length m = w * h \<and> set m \<subseteq> {0, 1})"
  have "Q (threshold_variant (threshold ps) gray (replicate (w * h) 0))"
    unfolding Q_def by (rule threshold_variant_bits [OF zero_mask_bits])
  moreover have "Q (random_variant rand gray (replicate (w * h) 0))"
    unfolding Q_def by (rule random_variant_bits [OF zero_mask_bits])
  moreover have "Q (ordered_variant (algorithm ps) w h gray (replicate (w * h) 0))"
    unfolding Q_def by (rule ordered_variant_bits [OF zero_mask_bits])
  moreover have "Q (floyd_steinberg w h gray (replicate (w * h) 0))"
    unfolding Q_def by (rule floyd_steinberg_bits [OF zero_mask_bits])
  moreover have "Q (atkinson w h gray (replicate (w * h) 0))"
    unfolding Q_def by (rule atkinson_bits [OF zero_mask_bits])
  moreover have "Q (replicate (w * h) 0)"
    unfolding Q_def by (rule zero_mask_bits)
  ultimately have "Q (dither ps rand w h gray)"
    unfolding dither_def Let_def by simp
  then show ?thesis unfolding Q_def .
qed

text \<open>
  C9. For every raster of dimensions \<open>w\<close> by \<open>h\<close>, every parameter set and every
  algorithm identifier, the grayscale buffer and the mask of the pass both have \<open>w * h\<close>
  entries, and every entry of the mask is 0 or 1.
\<close>

theorem mask_invariant:
  "length (gray_loop ps d 0 0 (replicate (w * h) 0)) = w * h
   \<and> length (dither ps rand w h gray) = w * h
   \<and> (\<forall>b \<in> set (dither ps rand w h gray). b = 0 \<or> b = 1)"
proof -
  have "b = 0 \<or> b = 1" if "b \<in> set (dither ps rand w h gray)" for b
    using dither_bits [of ps rand w h gray] that by blast
  then show ?thesis
    using dither_bits [of ps rand w h gray] gray_loop_length [of ps d 0 0 "replicate (w * h) 0"]
    by simp
qed

theorem mask_invariant_witness:
  "dither \<lparr>algorithm = FLOYD_STEINBERG, paletteKey = ''Sepia'', ditherSize = 1, brightness = 0,
       contrast = 0, gamma = 1, invert = False, threshold = 128\<rparr> (\<lambda>p. 0) 2 2 [100, 200, 50, 10]
     = [0, 1, 0, 0]
   \<and> length (dither \<lparr>algorithm = FLOYD_STEINBERG, paletteKey = ''Sepia'', ditherSize = 1,
       brightness = 0, contrast = 0, gamma = 1, invert = False, threshold = 128\<rparr> (\<lambda>p. 0) 2 2
       [100, 200, 50, 10]) = 2 * 2"
proof -
  let ?ps = "\<lparr>algorithm = FLOYD_STEINBERG, paletteKey = ''Sepia'', ditherSize = 1,
       brightness = 0, contrast = 0, gamma = 1, invert = False, threshold = 128\<rparr>"
  have "dither ?ps (\<lambda>p. 0) 2 2 [100, 200, 50, 10] = [0, 1, 0, 0]"
    by code_simp
  moreover have "length (dither ?ps (\<lambda>p. 0) 2 2 [100, 200, 50, 10]) = 2 * 2"
    using mask_invariant [of ?ps "[]" 2 2 "\<lambda>p. 0" "[100, 200, 50, 10]"] by blast
  ultimately show ?thesis by simp
qed

section \<open>The compositor\<close>

lemma fillRect_fields:
  "cwidth (fillRect dc style x y rw rh) = cwidth dc"
  "cheight (fillRect dc style x y rw rh) = cheight dc"
  "cctx2d (fillRect dc style x y rw rh) = cctx2d dc"
  "length (cpixels (fillRect dc style x y rw rh)) = length (cpixels dc)"
  by (simp_all add: fillRect_def)

lemma fillRect_nth:
  assumes "q < length (cpixels dc)"
  shows "cpixels (fillRect dc style x y rw rh) ! q
       = (if x \<le> q mod cwidth dc \<and> q mod cwidth dc < x + rw
             \<and> y \<le> q div cwidth dc \<and> q div cwidth dc < y + rh
          then style else cpixels dc ! q)"
  using assms by (simp add: fillRect_def Let_def)

lemma block_iff:
  fixes a p s :: nat
  assumes "0 < s"
  shows "(a * s \<le> p \<and> p < a * s + s) = (p div s = a)"
proof
  assume "a * s \<le> p \<and> p < a * s + s"
  then have "s * a \<le> p" "p < s * Suc a" by (simp_all add: mult.commute)
  then show "p div s = a" by (rule div_nat_eqI)
next
  assume d: "p div s = a"
  have "p div s * s \<le> p" by simp
  moreover have "p < s + p div s * s" using assms by (rule dividend_less_div_times)
  ultimately show "a * s \<le> p \<and> p < a * s + s" using d by (simp add: add.commute)
qed

lemma div_less_of_less_mult:
  fixes q W H :: nat
  assumes "q < W * H"
  shows "q mod W < W" "q div W < H"
proof -
  have W: "0 < W" using assms by (cases W) simp_all
  then show "q mod W < W" by simp
  show "q div W < H" using assms W by (simp add: less_mult_imp_div_less mult.commute)
qed


lemma block_of_pixel:
  fixes q w h s :: nat
  assumes "q < (w * s) * (h * s)"
  shows "0 < s" "q mod (w * s) div s < w" "q div (w * s) div s < h"
    "(q div (w * s) div s) * w + q mod (w * s) div s < w * h"
proof -
  show s: "0 < s" using assms by (cases s) simp_all
  have "q mod (w * s) < w * s" "q div (w * s) < h * s"
    using div_less_of_less_mult [OF assms] by simp_all
  then show x: "q mod (w * s) div s < w" and y: "q div (w * s) div s < h"
    using s by (simp_all add: less_mult_imp_div_less)
  show "(q div (w * s) div s) * w + q mod (w * s) div s < w * h"
    using x y by (rule pixel_in_range)
qed

lemma paint_step:
  fixes w h s k :: nat
  defines "W \<equiv> w * s" and "H \<equiv> h * s"
  defines "blk \<equiv> \<lambda>q. (q div W div s) * w + q mod W div s"
  assumes k: "k < w * h"
    and inv: "cwidth t = W \<and> length (cpixels t) = W * H
      \<and> (\<forall>q < W * H. cpixels t ! q = (if blk q < k \<and> msk ! blk q \<noteq> 0 then fgc else bgc))"
  defines "t' \<equiv> (if msk ! ((k div w) * w + k mod w) \<noteq> 0
                 then fillRect t fgc ((k mod w) * s) ((k div w) * s) s s else t)"
  shows "cwidth t' = W \<and> length (cpixels t') = W * H
      \<and> (\<forall>q < W * H. cpixels t' ! q = (if blk q < Suc k \<and> msk ! blk q \<noteq> 0 then fgc else bgc))"
proof -
  have kk: "(k div w) * w + k mod w = k" by simp
  have w: "0 < w" using k by (cases w) simp_all
  have fields: "cwidth t' = W" "length (cpixels t') = W * H"
    using inv by (simp_all add: t'_def fillRect_fields)
  have px: "cpixels t' ! q = (if blk q < Suc k \<and> msk ! blk q \<noteq> 0 then fgc else bgc)"
    if q: "q < W * H" for q
  proof -
    have old: "cpixels t ! q = (if blk q < k \<and> msk ! blk q \<noteq> 0 then fgc else bgc)"
      using inv q by blast
    have blkq: "0 < s" "q mod W div s < w"
      using block_of_pixel [of q w s h] q by (simp_all add: W_def H_def)
    have inrect: "((k mod w) * s \<le> q mod W \<and> q mod W < (k mod w) * s + s
          \<and> (k div w) * s \<le> q div W \<and> q div W < (k div w) * s + s) = (blk q = k)"
    proof -
      have "((k mod w) * s \<le> q mod W \<and> q mod W < (k mod w) * s + s) = (q mod W div s = k mod w)"
        using blkq(1) by (rule block_iff)
      moreover have "((k div w) * s \<le> q div W \<and> q div W < (k div w) * s + s)
          = (q div W div s = k div w)"
        using blkq(1) by (rule block_iff)
      moreover have "(blk q = k) = (q mod W div s = k mod w \<and> q div W div s = k div w)"
      proof -
        have "k mod w < w" using w by simp
        from coords_eq [OF this blkq(2), of "q div W div s" "k div w"]
        show ?thesis by (simp add: blk_def kk)
      qed
      ultimately show ?thesis by blast
    qed
    show ?thesis
    proof (cases "msk ! k \<noteq> 0")
      case True
      then have "cpixels t' ! q = (if blk q = k then fgc else cpixels t ! q)"
        using q inv fillRect_nth [of q t fgc "(k mod w) * s" "(k div w) * s" s s] inrect
        by (simp add: t'_def kk)
      then show ?thesis
        using True old by (auto simp: less_Suc_eq)
    next
      case False
      then have "cpixels t' ! q = cpixels t ! q" by (simp add: t'_def kk)
      then show ?thesis
        using False old by (auto simp: less_Suc_eq)
    qed
  qed
  show ?thesis using fields px by blast
qed


lemma composite_linear:
  "composite w h msk pal s dc =
     foldl (\<lambda>t k. if msk ! ((k div w) * w + k mod w) \<noteq> 0
                    then fillRect t (fg pal) ((k mod w) * s) ((k div w) * s) s s else t)
       (fillRect (set_size dc (w * s) (h * s)) (bg pal) 0 0 (w * s) (h * s)) [0..<w * h]"
  by (simp add: composite_def Let_def scan_linear)

lemma background_fill:
  fixes W H :: nat and dc :: canvas and bgc :: string
  defines "c0 \<equiv> fillRect (set_size dc W H) bgc 0 0 W H"
  shows "cwidth c0 = W" "cheight c0 = H" "cctx2d c0 = cctx2d dc" "length (cpixels c0) = W * H"
    "q < W * H \<Longrightarrow> cpixels c0 ! q = bgc"
proof -
  show "cwidth c0 = W" "cheight c0 = H" "cctx2d c0 = cctx2d dc" "length (cpixels c0) = W * H"
    by (simp_all add: c0_def fillRect_fields set_size_def)
  show "cpixels c0 ! q = bgc" if "q < W * H"
    using that div_less_of_less_mult [OF that]
      fillRect_nth [of q "set_size dc W H" bgc 0 0 W H]
    by (simp add: c0_def set_size_def)
qed

lemma composite_size:
  "cwidth (composite w h msk pal s dc) = w * s \<and> cheight (composite w h msk pal s dc) = h * s
   \<and> cctx2d (composite w h msk pal s dc) = cctx2d dc"
  unfolding composite_linear
  by (rule foldl_upt_invariant [where P = "\<lambda>k t. cwidth t = w * s \<and> cheight t = h * s
        \<and> cctx2d t = cctx2d dc"])
    (simp_all add: fillRect_fields set_size_def)

lemma composite_pixels:
  fixes w h s :: nat
  assumes "q < (w * s) * (h * s)"
  shows "length (cpixels (composite w h msk pal s dc)) = (w * s) * (h * s)"
    and "cpixels (composite w h msk pal s dc) ! q
       = (if msk ! ((q div (w * s) div s) * w + q mod (w * s) div s) \<noteq> 0
          then fg pal else bg pal)"
proof -
  let ?W = "w * s" and ?H = "h * s"
  let ?blk = "\<lambda>q. (q div ?W div s) * w + q mod ?W div s"
  let ?P = "\<lambda>k t. cwidth t = ?W \<and> length (cpixels t) = ?W * ?H
      \<and> (\<forall>q < ?W * ?H. cpixels t ! q = (if ?blk q < k \<and> msk ! ?blk q \<noteq> 0 then fg pal else bg pal))"
  have "?P (w * h) (composite w h msk pal s dc)"
    unfolding composite_linear
  proof (rule foldl_upt_invariant [where P = ?P])
    show "?P 0 (fillRect (set_size dc ?W ?H) (bg pal) 0 0 ?W ?H)"
      by (simp add: background_fill)
  next
    fix k and t :: canvas
    assume "k < w * h" and "?P k t"
    then show "?P (Suc k) (if msk ! ((k div w) * w + k mod w) \<noteq> 0
                 then fillRect t (fg pal) ((k mod w) * s) ((k div w) * s) s s else t)"
      by (rule paint_step)
  qed
  moreover have "?blk q < w * h"
    using block_of_pixel(4) [OF assms] .
  ultimately show "length (cpixels (composite w h msk pal s dc)) = ?W * ?H"
    and "cpixels (composite w h msk pal s dc) ! q
       = (if msk ! ?blk q \<noteq> 0 then fg pal else bg pal)"
    using assms by simp_all
qed

lemma block_pixel_index:
  fixes x y dx dy w h s :: nat
  assumes "x < w" "y < h" "dx < s" "dy < s"
  defines "q \<equiv> (y * s + dy) * (w * s) + (x * s + dx)"
  shows "q < (w * s) * (h * s)" "q mod (w * s) div s = x" "q div (w * s) div s = y"
proof -
  have xs: "x * s + dx < w * s"
    using pixel_in_range [OF assms(3) assms(1)] by (simp add: mult.commute)
  have ys: "y * s + dy < h * s"
    using pixel_in_range [OF assms(4) assms(2)] by (simp add: mult.commute)
  show "q < (w * s) * (h * s)"
    unfolding q_def using xs ys by (rule pixel_in_range)
  have "q mod (w * s) = x * s + dx" "q div (w * s) = y * s + dy"
    unfolding q_def using pixel_index [OF xs, of "y * s + dy"] by simp_all
  then show "q mod (w * s) div s = x" "q div (w * s) div s = y"
    using assms(3,4) by simp_all
qed

text \<open>
  C6. For a mask of \<open>w\<close> by \<open>h\<close> pixels, a palette and a block size \<open>s\<close>, the painted
  raster is \<open>w * s\<close> wide and \<open>h * s\<close> high, and every pixel of the block of \<open>s\<close> by
  \<open>s\<close> pixels at \<open>(x * s, y * s)\<close> has the foreground colour when the mask entry of
  (x, y) is 1 and the background colour when it is 0: the background is filled first and
  the foreground blocks are painted over it.
\<close>

theorem composite_blocks:
  assumes "x < w" "y < h" "dx < s" "dy < s"
  shows "let out = composite w h msk pal s dc;
             pixel = cpixels out ! ((y * s + dy) * (w * s) + (x * s + dx))
         in cwidth out = w * s \<and> cheight out = h * s
            \<and> length (cpixels out) = (w * s) * (h * s)
            \<and> (msk ! (y * w + x) = 1 \<longrightarrow> pixel = fg pal)
            \<and> (msk ! (y * w + x) = 0 \<longrightarrow> pixel = bg pal)
            \<and> (pixel = fg pal \<or> pixel = bg pal)"
proof -
  let ?q = "(y * s + dy) * (w * s) + (x * s + dx)"
  note idx = block_pixel_index [OF assms]
  have px: "cpixels (composite w h msk pal s dc) ! ?q
      = (if msk ! (y * w + x) \<noteq> 0 then fg pal else bg pal)"
    using composite_pixels(2) [OF idx(1), of msk pal dc] by (simp only: idx(2,3))
  have len: "length (cpixels (composite w h msk pal s dc)) = (w * s) * (h * s)"
    using idx(1) by (rule composite_pixels(1))
  show ?thesis
    unfolding Let_def using px len composite_size [of w h msk pal s dc] by simp
qed


theorem composite_blocks_witness:
  "composite 2 1 [0, 1] \<lparr>fg = ''#000000'', bg = ''#ffffff''\<rparr> 2
     \<lparr>cwidth = 0, cheight = 0, cpixels = [], cctx2d = True\<rparr>
   = \<lparr>cwidth = 4, cheight = 2,
      cpixels = [''#ffffff'', ''#ffffff'', ''#000000'', ''#000000'',
                 ''#ffffff'', ''#ffffff'', ''#000000'', ''#000000''],
      cctx2d = True\<rparr>
   \<and> cpixels (composite 2 1 [0, 1] \<lparr>fg = ''#000000'', bg = ''#ffffff''\<rparr> 2
        \<lparr>cwidth = 0, cheight = 0, cpixels = [], cctx2d = True\<rparr>) ! 7 = ''#000000''"
proof -
  let ?pal = "\<lparr>fg = ''#000000'', bg = ''#ffffff''\<rparr>"
  let ?dc = "\<lparr>cwidth = 0, cheight = 0, cpixels = [], cctx2d = True\<rparr>"
  have full: "composite 2 1 [0, 1] ?pal 2 ?dc
      = \<lparr>cwidth = 4, cheight = 2,
         cpixels = [''#ffffff'', ''#ffffff'', ''#000000'', ''#000000'',
                    ''#ffffff'', ''#ffffff'', ''#000000'', ''#000000''],
         cctx2d = True\<rparr>"
    by code_simp
  have xy: "(1::nat) < 2" "(0::nat) < 1" by simp_all
  have "[0, 1::nat] ! (0 * 2 + 1) = 1 \<longrightarrow>
      cpixels (composite 2 1 [0, 1] ?pal 2 ?dc) ! ((0 * 2 + 1) * (2 * 2) + (1 * 2 + 1)) = fg ?pal"
    using composite_blocks [OF xy xy(1) xy(1), of "[0, 1]" ?pal ?dc]
    unfolding Let_def by blast
  then have "cpixels (composite 2 1 [0, 1] ?pal 2 ?dc) ! 7 = ''#000000''"
    by simp
  with full show ?thesis by simp
qed

section \<open>An algorithm identifier outside the seven\<close>

lemma dither_unknown:
  assumes "algorithm ps \<notin> set ALGORITHMS"
  shows "dither ps rand w h gray = replicate (w * h) 0"
  using assms by (simp add: dither_def ALGORITHMS_def Let_def)

lemma processImage_painted:
  assumes "swidth oc \<noteq> 0" "sheight oc \<noteq> 0" "sctx2d oc" "cctx2d dc"
    and "map_of PALETTES (paletteKey ps) = Some pal"
  shows "processImage ps rand (Some oc) (Some dc)
       = Inr (Some (composite (swidth oc) (sheight oc)
            (dither ps rand (swidth oc) (sheight oc)
               (gray_loop ps (sdata oc) 0 0 (replicate (swidth oc * sheight oc) 0)))
            pal (ditherSize ps) dc))"
  using assms by (simp add: processImage_def Let_def)

lemma composite_zero_mask:
  assumes "q < (w * s) * (h * s)"
  shows "cpixels (composite w h (replicate (w * h) 0) pal s dc) ! q = bg pal"
  using composite_pixels(2) [OF assms, of "replicate (w * h) 0" pal dc]
    block_of_pixel(4) [OF assms]
  by simp

text \<open>
  C8, as the code has it. An algorithm identifier outside \<open>ALGORITHMS\<close> matches no case of
  the \<open>switch\<close>: the mask stays all zeros and, on a loaded image with a known palette, the
  pass returns normally with a raster of the scaled dimensions painted in the background
  colour. No error is signalled; the type \<open>Algorithm\<close> is what excludes such identifiers.
\<close>

theorem unknown_algorithm_paints_background:
  assumes "algorithm ps \<notin> set ALGORITHMS"
    and "swidth oc \<noteq> 0" "sheight oc \<noteq> 0" "sctx2d oc" "cctx2d dc"
    and "map_of PALETTES (paletteKey ps) = Some pal"
  shows "dither ps rand w h gray = replicate (w * h) 0
    \<and> (\<exists>out. processImage ps rand (Some oc) (Some dc) = Inr (Some out)
          \<and> cwidth out = swidth oc * ditherSize ps \<and> cheight out = sheight oc * ditherSize ps
          \<and> cpixels out = replicate (cwidth out * cheight out) (bg pal))"
proof -
  let ?w = "swidth oc" and ?h = "sheight oc" and ?s = "ditherSize ps"
  let ?out = "composite ?w ?h (replicate (?w * ?h) 0) pal ?s dc"
  have run: "processImage ps rand (Some oc) (Some dc) = Inr (Some ?out)"
    using processImage_painted [OF assms(2-6)] dither_unknown [OF assms(1)] by simp
  have size: "cwidth ?out = ?w * ?s" "cheight ?out = ?h * ?s"
    using composite_size [of ?w ?h "replicate (?w * ?h) 0" pal ?s dc] by simp_all
  have len: "length (cpixels ?out) = (?w * ?s) * (?h * ?s)"
    unfolding composite_linear
    by (rule foldl_upt_invariant
        [where P = "\<lambda>k t. length (cpixels t) = (?w * ?s) * (?h * ?s)"])
      (simp_all add: fillRect_fields set_size_def)
  have "cpixels ?out = replicate ((?w * ?s) * (?h * ?s)) (bg pal)"
  proof (rule nth_equalityI)
    show "length (cpixels ?out) = length (replicate ((?w * ?s) * (?h * ?s)) (bg pal))"
      by (simp only: len length_replicate)
  next
    fix q assume "q < length (cpixels ?out)"
    then have "q < (?w * ?s) * (?h * ?s)"
      by (simp only: len)
    then show "cpixels ?out ! q = replicate ((?w * ?s) * (?h * ?s)) (bg pal) ! q"
      by (simp add: composite_zero_mask)
  qed
  with run size show ?thesis
    using dither_unknown [OF assms(1)] by simp
qed

theorem unknown_algorithm_paints_background_witness:
  "\<exists>out. processImage
     \<lparr>algorithm = ''Sierra'', paletteKey = ''Sepia'', ditherSize = 2, brightness = 0,
      contrast = 0, gamma = 1, invert = False, threshold = 128\<rparr> (\<lambda>p. 0)
     (Some \<lparr>swidth = 1, sheight = 1, sdata = [255, 255, 255, 255], sctx2d = True\<rparr>)
     (Some \<lparr>cwidth = 0, cheight = 0, cpixels = [], cctx2d = True\<rparr>) = Inr (Some out)
     \<and> cpixels out = replicate 4 ''#f3e8d0''"
proof -
  let ?ps = "\<lparr>algorithm = ''Sierra'', paletteKey = ''Sepia'', ditherSize = 2, brightness = 0,
      contrast = 0, gamma = 1, invert = False, threshold = 128\<rparr>"
  let ?oc = "\<lparr>swidth = 1, sheight = 1, sdata = [255, 255, 255, 255], sctx2d = True\<rparr>"
  let ?dc = "\<lparr>cwidth = 0, cheight = 0, cpixels = [], cctx2d = True\<rparr>"
  have a: "algorithm ?ps \<notin> set ALGORITHMS"
    by (simp add: ALGORITHMS_def FLOYD_STEINBERG_def)
  have b: "swidth ?oc \<noteq> 0" "sheight ?oc \<noteq> 0" "sctx2d ?oc" "cctx2d ?dc" by simp_all
  have c: "map_of PALETTES (paletteKey ?ps) = Some \<lparr>fg = ''#3e2f1c'', bg = ''#f3e8d0''\<rparr>"
    by (simp add: PALETTES_def)
  from unknown_algorithm_paints_background [OF a b c, of "\<lambda>p. 0" 1 1 "[255]"]
  obtain out where "processImage ?ps (\<lambda>p. 0) (Some ?oc) (Some ?dc) = Inr (Some out)"
    "cwidth out = swidth ?oc * ditherSize ?ps" "cheight out = sheight ?oc * ditherSize ?ps"
    "cpixels out = replicate (cwidth out * cheight out) (bg \<lparr>fg = ''#3e2f1c'', bg = ''#f3e8d0''\<rparr>)"
    by blast
  then show ?thesis by (intro exI [of _ out]) simp
qed

text \<open>
  C8, as the specification states it, fails: with the identifier \<open>Sierra\<close>, which is not
  one of the seven, the pass on a white pixel returns normally with a background pixel.
\<close>

theorem unknown_algorithm_no_error:
  "''Sierra'' \<notin> set ALGORITHMS
   \<and> processImage
     \<lparr>algorithm = ''Sierra'', paletteKey = ''Black & White'', ditherSize = 1, brightness = 0,
      contrast = 0, gamma = 1, invert = False, threshold = 128\<rparr> (\<lambda>p. 0)
     (Some \<lparr>swidth = 1, sheight = 1, sdata = [255, 255, 255, 255], sctx2d = True\<rparr>)
     (Some \<lparr>cwidth = 0, cheight = 0, cpixels = [], cctx2d = True\<rparr>)
   = Inr (Some \<lparr>cwidth = 1, cheight = 1, cpixels = [''#ffffff''], cctx2d = True\<rparr>)"
proof -
  have "''Sierra'' \<notin> set ALGORITHMS"
    by (simp add: ALGORITHMS_def FLOYD_STEINBERG_def)
  moreover have "processImage
     \<lparr>algorithm = ''Sierra'', paletteKey = ''Black & White'', ditherSize = 1, brightness = 0,
      contrast = 0, gamma = 1, invert = False, threshold = 128\<rparr> (\<lambda>p. 0)
     (Some \<lparr>swidth = 1, sheight = 1, sdata = [255, 255, 255, 255], sctx2d = True\<rparr>)
     (Some \<lparr>cwidth = 0, cheight = 0, cpixels = [], cctx2d = True\<rparr>)
   = Inr (Some \<lparr>cwidth = 1, cheight = 1, cpixels = [''#ffffff''], cctx2d = True\<rparr>)"
    by code_simp
  ultimately show ?thesis by simp
qed

section \<open>Determinism of the pass\<close>

lemma dither_rand_irrelevant:
  assumes "algorithm ps \<noteq> ''Random''"
  shows "dither ps rand1 w h gray = dither ps rand2 w h gray"
  using assms by (simp add: dither_def Let_def)

lemma processImage_rand_irrelevant:
  assumes "algorithm ps \<noteq> ''Random''"
  shows "processImage ps rand1 oc dc = processImage ps rand2 oc dc"
  unfolding processImage_def Let_def
  by (simp only: dither_rand_irrelevant [OF assms, of rand1 _ _ _ rand2])

lemma set_size_previous_irrelevant:
  assumes "cctx2d dc = cctx2d dc'"
  shows "set_size dc W H = set_size dc' W H"
  using assms by (cases dc, cases dc') (simp add: set_size_def)

lemma composite_previous_irrelevant:
  assumes "cctx2d dc = cctx2d dc'"
  shows "composite w h msk pal s dc = composite w h msk pal s dc'"
  unfolding composite_def Let_def
  by (simp only: set_size_previous_irrelevant [OF assms])

lemma processImage_early_return:
  assumes "swidth ocv = 0 \<or> sheight ocv = 0 \<or> \<not> sctx2d ocv \<or> \<not> cctx2d dcv"
  shows "processImage ps rand (Some ocv) (Some dcv) = Inr (Some dcv)"
  using assms by (auto simp: processImage_def Let_def)

lemma processImage_full_pass:
  assumes "\<not> (swidth ocv = 0 \<or> sheight ocv = 0 \<or> \<not> sctx2d ocv \<or> \<not> cctx2d dcv)"
  shows "processImage ps rand (Some ocv) (Some dcv)
       = (case map_of PALETTES (paletteKey ps) of
            None \<Rightarrow> Inl TypeError
          | Some pal \<Rightarrow>
              Inr (Some (composite (swidth ocv) (sheight ocv)
                (dither ps rand (swidth ocv) (sheight ocv)
                   (gray_loop ps (sdata ocv) 0 0 (replicate (swidth ocv * sheight ocv) 0)))
                pal (ditherSize ps) dcv)))"
  using assms by (simp add: processImage_def Let_def)

lemma processImage_again:
  assumes "processImage ps rand oc dc = Inr (Some out)"
  shows "processImage ps rand oc (Some out) = Inr (Some out)"
proof (cases oc)
  case None
  then show ?thesis by (simp add: processImage_def)
next
  case (Some ocv)
  show ?thesis
  proof (cases dc)
    case None
    with Some assms show ?thesis by (simp add: processImage_def)
  next
    case (Some dcv)
    note dcv = this
    show ?thesis
    proof (cases "swidth ocv = 0 \<or> sheight ocv = 0 \<or> \<not> sctx2d ocv \<or> \<not> cctx2d dcv")
      case True
      have "out = dcv"
        using assms processImage_early_return [OF True, of ps rand]
        by (simp add: \<open>oc = Some ocv\<close> dcv)
      then show ?thesis
        using processImage_early_return [OF True, of ps rand]
        by (simp add: \<open>oc = Some ocv\<close>)
    next
      case False
      let ?w = "swidth ocv" and ?h = "sheight ocv"
      let ?m = "dither ps rand ?w ?h (gray_loop ps (sdata ocv) 0 0 (replicate (?w * ?h) 0))"
      have run: "(case map_of PALETTES (paletteKey ps) of
            None \<Rightarrow> Inl TypeError
          | Some pal \<Rightarrow> Inr (Some (composite ?w ?h ?m pal (ditherSize ps) dcv)))
          = Inr (Some out)"
        using assms processImage_full_pass [OF False, of ps rand]
        by (simp add: \<open>oc = Some ocv\<close> dcv)
      then obtain pal where pal: "map_of PALETTES (paletteKey ps) = Some pal"
        and out: "out = composite ?w ?h ?m pal (ditherSize ps) dcv"
        by (cases "map_of PALETTES (paletteKey ps)") auto
      have ctx: "cctx2d out = cctx2d dcv"
        using composite_size [of ?w ?h ?m pal "ditherSize ps" dcv] by (simp add: out)
      have again: "composite ?w ?h ?m pal (ditherSize ps) out = out"
        using composite_previous_irrelevant [OF ctx, of ?w ?h ?m pal "ditherSize ps"]
        by (simp add: out)
      have "\<not> (swidth ocv = 0 \<or> sheight ocv = 0 \<or> \<not> sctx2d ocv \<or> \<not> cctx2d out)"
        using False ctx by simp
      then have "processImage ps rand (Some ocv) (Some out)
          = Inr (Some (composite ?w ?h ?m pal (ditherSize ps) out))"
        using processImage_full_pass [of ocv out ps rand] pal by simp
      then show ?thesis
        by (simp add: again \<open>oc = Some ocv\<close>)
    qed
  qed
qed


lemma random_runs_differ:
  "processImage
     \<lparr>algorithm = ''Random'', paletteKey = ''Black & White'', ditherSize = 1, brightness = 0,
      contrast = 0, gamma = 1, invert = False, threshold = 128\<rparr> (\<lambda>p. 0)
     (Some \<lparr>swidth = 1, sheight = 1, sdata = [100, 100, 100, 255], sctx2d = True\<rparr>)
     (Some \<lparr>cwidth = 0, cheight = 0, cpixels = [], cctx2d = True\<rparr>)
   \<noteq> processImage
     \<lparr>algorithm = ''Random'', paletteKey = ''Black & White'', ditherSize = 1, brightness = 0,
      contrast = 0, gamma = 1, invert = False, threshold = 128\<rparr> (\<lambda>p. 9 / 10)
     (Some \<lparr>swidth = 1, sheight = 1, sdata = [100, 100, 100, 255], sctx2d = True\<rparr>)
     (Some \<lparr>cwidth = 0, cheight = 0, cpixels = [], cctx2d = True\<rparr>)"
proof -
  have "processImage
     \<lparr>algorithm = ''Random'', paletteKey = ''Black & White'', ditherSize = 1, brightness = 0,
      contrast = 0, gamma = 1, invert = False, threshold = 128\<rparr> (\<lambda>p. 0)
     (Some \<lparr>swidth = 1, sheight = 1, sdata = [100, 100, 100, 255], sctx2d = True\<rparr>)
     (Some \<lparr>cwidth = 0, cheight = 0, cpixels = [], cctx2d = True\<rparr>)
    = Inr (Some \<lparr>cwidth = 1, cheight = 1, cpixels = [''#000000''], cctx2d = True\<rparr>)"
    by code_simp
  moreover have "processImage
     \<lparr>algorithm = ''Random'', paletteKey = ''Black & White'', ditherSize = 1, brightness = 0,
      contrast = 0, gamma = 1, invert = False, threshold = 128\<rparr> (\<lambda>p. 9 / 10)
     (Some \<lparr>swidth = 1, sheight = 1, sdata = [100, 100, 100, 255], sctx2d = True\<rparr>)
     (Some \<lparr>cwidth = 0, cheight = 0, cpixels = [], cctx2d = True\<rparr>)
    = Inr (Some \<lparr>cwidth = 1, cheight = 1, cpixels = [''#ffffff''], cctx2d = True\<rparr>)"
    by code_simp
  ultimately show ?thesis by simp
qed

text \<open>
  C10. Under every variant but Random the pass does not depend on the values that
  \<open>Math.random\<close> returns: two runs with the same parameters on the same input leave the
  same raster, and a second run over the raster that the first one left gives that raster
  again. Under Random two runs can differ.
\<close>

theorem pipeline_deterministic:
  "(algorithm ps \<noteq> ''Random'' \<longrightarrow>
      processImage ps rand1 oc dc = processImage ps rand2 oc dc
      \<and> (\<forall>out. processImage ps rand1 oc dc = Inr (Some out)
            \<longrightarrow> processImage ps rand2 oc (Some out) = Inr (Some out)))
   \<and> (\<exists>ps' r1 r2 oc' dc'. algorithm ps' = ''Random''
         \<and> processImage ps' r1 oc' dc' \<noteq> processImage ps' r2 oc' dc')"
proof -
  have same: "processImage ps rand1 oc dc = processImage ps rand2 oc dc"
    if "algorithm ps \<noteq> ''Random''"
    using that by (rule processImage_rand_irrelevant)
  have again: "processImage ps rand2 oc (Some out) = Inr (Some out)"
    if "algorithm ps \<noteq> ''Random''" "processImage ps rand1 oc dc = Inr (Some out)" for out
  proof -
    have "processImage ps rand2 oc dc = Inr (Some out)"
      using that same by simp
    then show ?thesis by (rule processImage_again)
  qed
  have differ: "\<exists>ps' r1 r2 oc' dc'. algorithm ps' = ''Random''
         \<and> processImage ps' r1 oc' dc' \<noteq> processImage ps' r2 oc' dc'"
    using random_runs_differ
    by (intro exI [of _ "\<lparr>algorithm = ''Random'', paletteKey = ''Black & White'', ditherSize = 1,
      brightness = 0, contrast = 0, gamma = 1, invert = False, threshold = 128\<rparr>"]
      exI [of _ "\<lambda>p. 0"] exI [of _ "\<lambda>p. 9 / 10"]
      exI [of _ "Some \<lparr>swidth = 1, sheight = 1, sdata = [100, 100, 100, 255], sctx2d = True\<rparr>"]
      exI [of _ "Some \<lparr>cwidth = 0, cheight = 0, cpixels = [], cctx2d = True\<rparr>"]) simp
  show ?thesis
    using same again differ by blast
qed

theorem pipeline_deterministic_witness:
  "processImage
     \<lparr>algorithm = FLOYD_STEINBERG, paletteKey = ''Black & White'', ditherSize = 1,
      brightness = 0, contrast = 0, gamma = 1, invert = False, threshold = 128\<rparr> (\<lambda>p. 0)
     (Some \<lparr>swidth = 2, sheight = 1, sdata = [100, 100, 100, 255, 200, 200, 200, 255],
        sctx2d = True\<rparr>)
     (Some \<lparr>cwidth = 0, cheight = 0, cpixels = [], cctx2d = True\<rparr>)
   = Inr (Some \<lparr>cwidth = 2, cheight = 1, cpixels = [''#ffffff'', ''#000000''], cctx2d = True\<rparr>)
   \<and> processImage
     \<lparr>algorithm = FLOYD_STEINBERG, paletteKey = ''Black & White'', ditherSize = 1,
      brightness = 0, contrast = 0, gamma = 1, invert = False, threshold = 128\<rparr> (\<lambda>p. 9 / 10)
     (Some \<lparr>swidth = 2, sheight = 1, sdata = [100, 100, 100, 255, 200, 200, 200, 255],
        sctx2d = True\<rparr>)
     (Some \<lparr>cwidth = 2, cheight = 1, cpixels = [''#ffffff'', ''#000000''], cctx2d = True\<rparr>)
   = Inr (Some \<lparr>cwidth = 2, cheight = 1, cpixels = [''#ffffff'', ''#000000''], cctx2d = True\<rparr>)"
proof -
  let ?ps = "\<lparr>algorithm = FLOYD_STEINBERG, paletteKey = ''Black & White'', ditherSize = 1,
      brightness = 0, contrast = 0, gamma = 1, invert = False, threshold = 128\<rparr>"
  let ?oc = "Some \<lparr>swidth = 2, sheight = 1, sdata = [100, 100, 100, 255, 200, 200, 200, 255],
        sctx2d = True\<rparr>"
  let ?dc = "Some \<lparr>cwidth = 0, cheight = 0, cpixels = [], cctx2d = True\<rparr>"
  let ?out = "\<lparr>cwidth = 2, cheight = 1, cpixels = [''#ffffff'', ''#000000''], cctx2d = True\<rparr>"
  have alg: "algorithm ?ps \<noteq> ''Random''"
    by (simp add: FLOYD_STEINBERG_def)
  have first: "processImage ?ps (\<lambda>p. 0) ?oc ?dc = Inr (Some ?out)"
    by code_simp
  have "processImage ?ps (\<lambda>p. 9 / 10) ?oc (Some ?out) = Inr (Some ?out)"
    using pipeline_deterministic [of ?ps "\<lambda>p. 0" ?oc ?dc "\<lambda>p. 9 / 10"] alg first by blast
  with first show ?thesis by simp
qed

end
